theory Spec2Isabelle
  imports Complex_Main
begin

section \<open>Python values\<close>

text \<open>
  The values that reach the collector and the configuration store are Python objects.
  Only their dynamic type and, for numbers and strings, their content matter to the code.
  A float is either not-a-number, an infinity or a finite value; a string is a list of
  characters, one \<^typ>\<open>char\<close> per code point. \<open>POther\<close> stands for any object that is
  not None, a bool, an int, a float or a string (a tensor, a list, a dict).
\<close>

datatype pyfloat = NaN | PosInf | NegInf | Finite real

datatype pyval = PNone | PBool bool | PInt int | PFloat pyfloat | PStr string | POther

datatype exc = OverflowError | AttributeError | TypeError | ValueError | KeyError

text \<open>\<open>isinstance(v, int)\<close>: bool is a subclass of int.\<close>

fun isinstance_int :: "pyval \<Rightarrow> bool" where
  "isinstance_int (PInt i) = True"
| "isinstance_int (PBool b) = True"
| "isinstance_int v = False"

fun isinstance_float :: "pyval \<Rightarrow> bool" where
  "isinstance_float (PFloat f) = True"
| "isinstance_float v = False"

text \<open>\<open>v != v\<close> holds for the float NaN only.\<close>

fun ne_self :: "pyval \<Rightarrow> bool" where
  "ne_self (PFloat NaN) = True"
| "ne_self v = False"

text \<open>
  The guard of every numeric branch of \<open>log_step_metrics\<close>:
  \<open>isinstance(value, (int, float)) and not (isinstance(value, float) and (value != value))\<close>.
\<close>

definition is_number :: "pyval \<Rightarrow> bool" where
  "is_number v \<longleftrightarrow>
     (isinstance_int v \<or> isinstance_float v) \<and> \<not> (isinstance_float v \<and> ne_self v)"

text \<open>
  \<open>float(i)\<close> for an int rounds to the nearest double (53 significant bits, ties to even)
  and raises OverflowError when the rounded value does not fit a double.
\<close>

function bit_length :: "int \<Rightarrow> nat" where
  "bit_length n = (if n \<le> 0 then 0 else Suc (bit_length (n div 2)))"
  by pat_completeness auto
termination
  by (relation "measure nat") auto

declare bit_length.simps [simp del]

definition round_int :: "int \<Rightarrow> int" where
  "round_int n =
     (let sh = bit_length n - 53;
          q = n div 2 ^ sh;
          r = n mod 2 ^ sh;
          m = (if 2 * r > 2 ^ sh \<or> (2 * r = 2 ^ sh \<and> odd q) then q + 1 else q)
      in m * 2 ^ sh)"

definition float_of_int :: "int \<Rightarrow> exc + pyfloat" where
  "float_of_int i =
     (let v = round_int \<bar>i\<bar>
      in if v \<ge> 2 ^ 1024 then Inl OverflowError
         else Inr (Finite (if i < 0 then - of_int v else of_int v)))"

text \<open>
  \<open>float(value)\<close>. The code calls it on values that passed \<open>is_number\<close> only; on the
  others it would raise (TypeError for None and for a foreign object; a string is parsed,
  with ValueError for one that is no number, which is what the model answers for every
  string).
\<close>

fun py_float :: "pyval \<Rightarrow> exc + pyfloat" where
  "py_float (PFloat f) = Inr f"
| "py_float (PInt i) = float_of_int i"
| "py_float (PBool b) = Inr (Finite (if b then 1 else 0))"
| "py_float (PStr s) = Inl ValueError"
| "py_float v = Inl TypeError"

text \<open>\<open>str(i)\<close> for an int, as the f-strings of the ids format the step.\<close>

definition digit :: "nat \<Rightarrow> char" where
  "digit d = char_of (48 + d)"

fun str_nat :: "nat \<Rightarrow> string" where
  "str_nat n = (if n < 10 then [digit n] else str_nat (n div 10) @ [digit (n mod 10)])"

declare str_nat.simps [simp del]

definition str_int :: "int \<Rightarrow> string" where
  "str_int i = (if i < 0 then CHR ''-'' # str_nat (nat (- i)) else str_nat (nat i))"

text \<open>\<open>s.replace(old, new)\<close> for one-character \<open>old\<close> and \<open>new\<close>.\<close>

definition replace :: "char \<Rightarrow> char \<Rightarrow> string \<Rightarrow> string" where
  "replace old new s = map (\<lambda>c. if c = old then new else c) s"

section \<open>Metric events and the collector\<close>

text \<open>
  The value of an event is \<open>float(value)\<close> for the numeric branches and the int
  \<open>hash(value) % 1000000\<close> for the string branch.
\<close>

datatype numval = VFloat pyfloat | VInt int

record event =
  ev_id :: string
  ev_job_id :: string
  ev_step :: int
  ev_timestamp :: string
  ev_metric_type :: string
  ev_metric_name :: string
  ev_value :: numval

record collector =
  job_id :: string
  db_path :: string
  buffer :: "event list"
  buffer_size :: nat

text \<open>
  The durable side: for every database file the rows of its TrainingMetrics table, keyed
  by the primary key \<open>id\<close>, and the number of connections opened so far. Whether the
  statements of one flush succeed is decided by the environment.
\<close>

type_synonym table = "string \<rightharpoonup> event"

record sqlite =
  tables :: "string \<Rightarrow> table"
  connects :: nat

text \<open>
  The outcome of the \<open>try\<close> block of \<open>flush\<close>: everything succeeds; an exception before
  \<open>conn.commit()\<close> has returned (nothing is written); an exception in \<open>conn.close()\<close>
  after the commit (the rows are written).
\<close>

datatype outcome = Success | FailBeforeCommit | FailAfterCommit

definition safe_key :: "string \<Rightarrow> string" where
  "safe_key key = replace CHR ''-'' CHR ''_'' (replace CHR '' '' CHR ''_'' (replace CHR ''/'' CHR ''_'' key))"

definition loss_id :: "string \<Rightarrow> int \<Rightarrow> string \<Rightarrow> string" where
  "loss_id job step key = job @ ''_'' @ str_int step @ ''_loss_'' @ safe_key key"

definition lr_id :: "string \<Rightarrow> int \<Rightarrow> string" where
  "lr_id job step = job @ ''_'' @ str_int step @ ''_lr''"

definition system_id :: "string \<Rightarrow> int \<Rightarrow> string \<Rightarrow> string" where
  "system_id job step key = job @ ''_'' @ str_int step @ ''_system_'' @ key"

definition info_id :: "string \<Rightarrow> int \<Rightarrow> string \<Rightarrow> string" where
  "info_id job step key = job @ ''_'' @ str_int step @ ''_info_'' @ key"

definition mk_event ::
  "string \<Rightarrow> string \<Rightarrow> int \<Rightarrow> string \<Rightarrow> string \<Rightarrow> string \<Rightarrow> numval \<Rightarrow> event" where
  "mk_event i job step ts ty name v =
     \<lparr>ev_id = i, ev_job_id = job, ev_step = step, ev_timestamp = ts,
      ev_metric_type = ty, ev_metric_name = name, ev_value = v\<rparr>"

text \<open>
  The three loops of \<open>log_step_metrics\<close>. Each returns the events it appended to the
  buffer and the exception that ended it, if any: an append that happened before an
  exception stays in the buffer. Only \<open>float(value)\<close> can raise. The first two
  loops have no handler; the third catches ValueError and TypeError and goes on with the
  next item (\<open>continue\<close>), and lets every other exception through.
\<close>

fun loss_events ::
  "string \<Rightarrow> int \<Rightarrow> string \<Rightarrow> (string \<times> pyval) list \<Rightarrow> exc option \<times> event list" where
  "loss_events job step ts [] = (None, [])"
| "loss_events job step ts ((key, value) # rest) =
     (if is_number value then
        (case py_float value of
           Inl e \<Rightarrow> (Some e, [])
         | Inr f \<Rightarrow>
             (case loss_events job step ts rest of
                (r, evs) \<Rightarrow>
                  (r, mk_event (loss_id job step key) job step ts ''loss'' key (VFloat f) # evs)))
      else loss_events job step ts rest)"

definition lr_events :: "string \<Rightarrow> int \<Rightarrow> string \<Rightarrow> pyval \<Rightarrow> exc option \<times> event list" where
  "lr_events job step ts learning_rate =
     (if is_number learning_rate then
        (case py_float learning_rate of
           Inl e \<Rightarrow> (Some e, [])
         | Inr f \<Rightarrow>
             (None, [mk_event (lr_id job step) job step ts ''learning_rate'' ''lr'' (VFloat f)]))
      else (None, []))"

fun kwargs_events ::
  "(string \<Rightarrow> int) \<Rightarrow> string \<Rightarrow> int \<Rightarrow> string \<Rightarrow> (string \<times> pyval) list
     \<Rightarrow> exc option \<times> event list" where
  "kwargs_events hash job step ts [] = (None, [])"
| "kwargs_events hash job step ts ((key, value) # rest) =
     (if value \<noteq> PNone then
        (if is_number value then
           (case py_float value of
              Inl e \<Rightarrow>
                (if e = ValueError \<or> e = TypeError then kwargs_events hash job step ts rest
                 else (Some e, []))
            | Inr f \<Rightarrow>
                (case kwargs_events hash job step ts rest of
                   (r, evs) \<Rightarrow>
                     (r, mk_event (system_id job step key) job step ts ''system'' key (VFloat f)
                           # evs)))
         else
           (case value of
              PStr s \<Rightarrow>
                (if length s < 100 then
                   (case kwargs_events hash job step ts rest of
                      (r, evs) \<Rightarrow>
                        (r, mk_event (info_id job step key) job step ts ''info'' key
                              (VInt (hash s mod 1000000)) # evs))
                 else kwargs_events hash job step ts rest)
            | _ \<Rightarrow> kwargs_events hash job step ts rest))
      else kwargs_events hash job step ts rest)"

text \<open>Everything one call appends before the threshold test, and the exception, if any.\<close>

definition step_events ::
  "(string \<Rightarrow> int) \<Rightarrow> string \<Rightarrow> int \<Rightarrow> string \<Rightarrow> (string \<times> pyval) list \<Rightarrow> pyval
     \<Rightarrow> (string \<times> pyval) list \<Rightarrow> exc option \<times> event list" where
  "step_events hash job step ts loss_dict learning_rate kwargs =
     (case loss_events job step ts loss_dict of
        (Some e, evs) \<Rightarrow> (Some e, evs)
      | (None, evs) \<Rightarrow>
          (case lr_events job step ts learning_rate of
             (Some e, evs2) \<Rightarrow> (Some e, evs @ evs2)
           | (None, evs2) \<Rightarrow>
               (case kwargs_events hash job step ts kwargs of
                  (r, evs3) \<Rightarrow> (r, evs @ evs2 @ evs3))))"

text \<open>\<open>INSERT OR REPLACE\<close> of a batch, row by row, keyed by \<open>id\<close>.\<close>

definition insert_or_replace :: "event \<Rightarrow> table \<Rightarrow> table" where
  "insert_or_replace e t = t(ev_id e \<mapsto> e)"

definition executemany :: "event list \<Rightarrow> table \<Rightarrow> table" where
  "executemany evs t = fold insert_or_replace evs t"

definition flush :: "outcome \<Rightarrow> collector \<times> sqlite \<Rightarrow> collector \<times> sqlite" where
  "flush oc cs =
     (case cs of (c, db) \<Rightarrow>
        if buffer c = [] then (c, db)
        else
          (let db1 = db\<lparr>connects := Suc (connects db)\<rparr>;
               written = db1\<lparr>tables := (tables db1)
                            (db_path c := executemany (buffer c) (tables db1 (db_path c)))\<rparr>
           in case oc of
                Success \<Rightarrow> (c\<lparr>buffer := []\<rparr>, written)
              | FailBeforeCommit \<Rightarrow> (c, db1)
              | FailAfterCommit \<Rightarrow> (c, written)))"

text \<open>
  \<open>log_step_metrics\<close>: the timestamp \<open>ts\<close> of the call, the hash function of the
  process and the outcome of the flush it may trigger are given by the environment.
  When a loop raises, the threshold test is not reached.
\<close>

definition log_step_metrics ::
  "(string \<Rightarrow> int) \<Rightarrow> outcome \<Rightarrow> string \<Rightarrow> int \<Rightarrow> (string \<times> pyval) list \<Rightarrow> pyval
     \<Rightarrow> (string \<times> pyval) list \<Rightarrow> collector \<times> sqlite \<Rightarrow> exc option \<times> collector \<times> sqlite" where
  "log_step_metrics hash oc ts step loss_dict learning_rate kwargs cs =
     (case cs of (c, db) \<Rightarrow>
        (case step_events hash (job_id c) step ts loss_dict learning_rate kwargs of
           (r, evs) \<Rightarrow>
             (let c1 = c\<lparr>buffer := buffer c @ evs\<rparr>
              in case r of
                   Some e \<Rightarrow> (Some e, c1, db)
                 | None \<Rightarrow>
                     (if length (buffer c1) \<ge> buffer_size c1 then (None, flush oc (c1, db))
                      else (None, c1, db)))))"

text \<open>\<open>cleanup\<close>: a flush under the lock.\<close>

definition cleanup :: "outcome \<Rightarrow> collector \<times> sqlite \<Rightarrow> collector \<times> sqlite" where
  "cleanup oc cs = flush oc cs"

text \<open>
  \<open>LossCollector.__init__\<close>: \<open>db_path or self._get_default_db_path()\<close> takes the default
  for None and for the empty string; \<open>_ensure_table_exists\<close> opens one connection and
  leaves the rows alone. The default path is found on the file system by the
  environment.
\<close>

definition init_collector ::
  "string \<Rightarrow> string \<Rightarrow> string option \<Rightarrow> sqlite \<Rightarrow> collector \<times> sqlite" where
  "init_collector default_db_path job path db =
     (\<lparr>job_id = job,
       db_path = (case path of None \<Rightarrow> default_db_path
                  | Some p \<Rightarrow> if p = [] then default_db_path else p),
       buffer = [], buffer_size = 10\<rparr>,
      db\<lparr>connects := Suc (connects db)\<rparr>)"

section \<open>The registry of collectors\<close>

text \<open>
  \<open>MetricsManager._collectors\<close> maps a job id to a collector object. Two callers that
  ask for the same job hold the same object, so the objects live in a store and the
  registry holds references into it; a new object gets the next free reference.
\<close>

record manager =
  collectors :: "string \<rightharpoonup> nat"
  objects :: "collector list"

definition get_collector ::
  "string \<Rightarrow> string \<Rightarrow> string option \<Rightarrow> manager \<times> sqlite \<Rightarrow> nat \<times> manager \<times> sqlite" where
  "get_collector default_db_path job path ms =
     (case ms of (m, db) \<Rightarrow>
        (case collectors m job of
           None \<Rightarrow>
             (case init_collector default_db_path job path db of
                (c, db') \<Rightarrow>
                  (length (objects m),
                   m\<lparr>collectors := (collectors m)(job \<mapsto> length (objects m)),
                     objects := objects m @ [c]\<rparr>,
                   db'))
         | Some r \<Rightarrow> (r, m, db)))"

definition cleanup_collector :: "outcome \<Rightarrow> string \<Rightarrow> manager \<times> sqlite \<Rightarrow> manager \<times> sqlite" where
  "cleanup_collector oc job ms =
     (case ms of (m, db) \<Rightarrow>
        (case collectors m job of
           None \<Rightarrow> (m, db)
         | Some r \<Rightarrow>
             (case cleanup oc (objects m ! r, db) of
                (c', db') \<Rightarrow>
                  (m\<lparr>objects := (objects m)[r := c'],
                     collectors := (collectors m)(job := None)\<rparr>,
                   db'))))"

text \<open>Every reference of the registry points into the store.\<close>

definition manager_ok :: "manager \<Rightarrow> bool" where
  "manager_ok m \<longleftrightarrow> (\<forall>job r. collectors m job = Some r \<longrightarrow> r < length (objects m))"

text \<open>
  \<open>get_collector\<close> takes no lock, so a thread can be preempted between its three accesses
  of the dict: the membership test \<open>job_id not in cls._collectors\<close>, the construction
  and store \<open>cls._collectors[job_id] = LossCollector(job_id, db_path)\<close>, and the lookup
  \<open>return cls._collectors[job_id]\<close>. A thread is the arguments of its call and the
  access it is about to make; a schedule names, step by step, the thread that runs next.
\<close>

datatype pc = AtCheck | AtStore | AtLookup | Returned nat | Raised exc

record thread =
  t_job :: string
  t_path :: "string option"
  t_pc :: pc

definition check_step :: "string \<Rightarrow> manager \<Rightarrow> bool" where
  "check_step job m \<longleftrightarrow> collectors m job = None"

definition store_step ::
  "string \<Rightarrow> string \<Rightarrow> string option \<Rightarrow> manager \<times> sqlite \<Rightarrow> manager \<times> sqlite" where
  "store_step default_db_path job path ms =
     (case ms of (m, db) \<Rightarrow>
        (case init_collector default_db_path job path db of
           (c, db') \<Rightarrow>
             (m\<lparr>collectors := (collectors m)(job \<mapsto> length (objects m)),
                objects := objects m @ [c]\<rparr>,
              db')))"

definition lookup_step :: "string \<Rightarrow> manager \<Rightarrow> exc + nat" where
  "lookup_step job m = (case collectors m job of None \<Rightarrow> Inl KeyError | Some r \<Rightarrow> Inr r)"

definition thread_step ::
  "string \<Rightarrow> thread \<Rightarrow> manager \<times> sqlite \<Rightarrow> thread \<times> manager \<times> sqlite" where
  "thread_step default_db_path t ms =
     (case ms of (m, db) \<Rightarrow>
        (case t_pc t of
           AtCheck \<Rightarrow>
             (t\<lparr>t_pc := (if check_step (t_job t) m then AtStore else AtLookup)\<rparr>, m, db)
         | AtStore \<Rightarrow>
             (case store_step default_db_path (t_job t) (t_path t) (m, db) of
                (m', db') \<Rightarrow> (t\<lparr>t_pc := AtLookup\<rparr>, m', db'))
         | AtLookup \<Rightarrow>
             (t\<lparr>t_pc := (case lookup_step (t_job t) m of
                           Inl e \<Rightarrow> Raised e | Inr r \<Rightarrow> Returned r)\<rparr>, m, db)
         | Returned r \<Rightarrow> (t, m, db)
         | Raised e \<Rightarrow> (t, m, db)))"

fun run_schedule ::
  "string \<Rightarrow> nat list \<Rightarrow> thread list \<times> manager \<times> sqlite \<Rightarrow> thread list \<times> manager \<times> sqlite" where
  "run_schedule default_db_path [] s = s"
| "run_schedule default_db_path (i # rest) (ts, m, db) =
     (if i < length ts then
        (case thread_step default_db_path (ts ! i) (m, db) of
           (t', m', db') \<Rightarrow> run_schedule default_db_path rest (ts[i := t'], m', db'))
      else run_schedule default_db_path rest (ts, m, db))"

text \<open>A thread that enters \<open>get_collector\<close>.\<close>

definition caller :: "string \<Rightarrow> string option \<Rightarrow> thread" where
  "caller job path = \<lparr>t_job = job, t_path = path, t_pc = AtCheck\<rparr>"

section \<open>A caller of the collector\<close>

text \<open>
  A training loop is a sequence of calls of \<open>log_step_metrics\<close> on one collector, each
  with its arguments, its timestamp and the outcome of the flush it may trigger. A call
  that raises leaves its appended events in the buffer, and the loop goes on.
\<close>

datatype report =
  Report outcome string int "(string \<times> pyval) list" pyval "(string \<times> pyval) list"

fun run_reports :: "(string \<Rightarrow> int) \<Rightarrow> report list \<Rightarrow> collector \<times> sqlite \<Rightarrow> collector \<times> sqlite" where
  "run_reports hash [] cs = cs"
| "run_reports hash (Report oc ts step loss_dict lr kwargs # rest) cs =
     run_reports hash rest (snd (log_step_metrics hash oc ts step loss_dict lr kwargs cs))"

text \<open>The events the calls append, in order.\<close>

fun reported :: "(string \<Rightarrow> int) \<Rightarrow> string \<Rightarrow> report list \<Rightarrow> event list" where
  "reported hash job [] = []"
| "reported hash job (Report oc ts step loss_dict lr kwargs # rest) =
     snd (step_events hash job step ts loss_dict lr kwargs) @ reported hash job rest"

text \<open>The last element of a list that satisfies a predicate.\<close>

definition find_last :: "('a \<Rightarrow> bool) \<Rightarrow> 'a list \<Rightarrow> 'a option" where
  "find_last P xs = find P (rev xs)"

text \<open>The (job_id, step, metric_type, metric_name) of an event.\<close>

definition metric_key :: "event \<Rightarrow> string \<times> int \<times> string \<times> string" where
  "metric_key e = (ev_job_id e, ev_step e, ev_metric_type e, ev_metric_name e)"

text \<open>
  The id the code derives for a (job_id, step, metric_type, metric_name), by the f-string
  of the branch that appends events of that type.
\<close>

definition event_id :: "string \<times> int \<times> string \<times> string \<Rightarrow> string" where
  "event_id k =
     (case k of (job, step, ty, name) \<Rightarrow>
        if ty = ''loss'' then loss_id job step name
        else if ty = ''learning_rate'' then lr_id job step
        else if ty = ''system'' then system_id job step name
        else info_id job step name)"

text \<open>The part of the metric name that reaches the id: loss names are sanitised.\<close>

definition id_name :: "event \<Rightarrow> string" where
  "id_name e = (if ev_metric_type e = ''loss'' then safe_key (ev_metric_name e) else ev_metric_name e)"

text \<open>What every event appended for a job satisfies.\<close>

definition event_ok :: "string \<Rightarrow> event \<Rightarrow> bool" where
  "event_ok job e \<longleftrightarrow>
     ev_job_id e = job \<and> ev_id e = event_id (metric_key e) \<and>
     (ev_metric_type e = ''loss'' \<or> ev_metric_type e = ''system'' \<or> ev_metric_type e = ''info'' \<or>
      (ev_metric_type e = ''learning_rate'' \<and> ev_metric_name e = ''lr''))"

section \<open>The dynamic configuration store\<close>

text \<open>
  What \<open>yaml.safe_load(f) or {}\<close> yields: a dict, or a truthy object that is no dict
  (a list, a string, a number). The keys the code looks up are strings.
\<close>

datatype config = Dict "string \<rightharpoonup> pyval" | NonDict

text \<open>
  The content of a file, as the loader sees it: one that cannot be opened or parsed
  (\<open>open\<close> or \<open>yaml.safe_load\<close> raises), one that parses to a falsy value (an empty
  file gives None), or one that parses to a document.
\<close>

datatype content = Unreadable | Falsy | Parsed config

record file_entry =
  mtime :: real
  content :: content

text \<open>The file system: the files by path, and how often a file was opened for reading.\<close>

record fsys =
  files :: "string \<rightharpoonup> file_entry"
  reads :: nat

record dynamic_config =
  job_name :: string
  save_root :: string
  config_file :: string
  last_modified :: real
  config_cache :: config

text \<open>\<open>os.path.join(a, b)\<close> on POSIX.\<close>

definition path_join :: "string \<Rightarrow> string \<Rightarrow> string" where
  "path_join a b =
     (if b \<noteq> [] \<and> hd b = CHR ''/'' then b
      else if a = [] \<or> last a = CHR ''/'' then a @ b
      else a @ ''/'' @ b)"

text \<open>
  \<open>save_config\<close>: \<open>write_ok\<close> says whether the file could be opened for writing (the
  exception is caught and only printed); a written file carries the time of the write
  as its modification time.
\<close>

definition save_config :: "bool \<Rightarrow> real \<Rightarrow> dynamic_config \<Rightarrow> config \<Rightarrow> fsys \<Rightarrow> fsys" where
  "save_config write_ok now dc cfg fs =
     (if write_ok
      then fs\<lparr>files := (files fs)(config_file dc \<mapsto> \<lparr>mtime = now, content = Parsed cfg\<rparr>)\<rparr>
      else fs)"

definition default_config :: "real \<Rightarrow> config" where
  "default_config now =
     Dict [''sample_every'' \<mapsto> PInt 100, ''save_every'' \<mapsto> PNone, ''log_every'' \<mapsto> PNone,
           ''last_updated'' \<mapsto> PFloat (Finite now)]"

definition ensure_config_file :: "bool \<Rightarrow> real \<Rightarrow> dynamic_config \<Rightarrow> fsys \<Rightarrow> fsys" where
  "ensure_config_file write_ok now dc fs =
     (if files fs (config_file dc) = None then save_config write_ok now dc (default_config now) fs
      else fs)"

text \<open>\<open>DynamicConfig.__init__\<close>.\<close>

definition init_dynamic_config ::
  "bool \<Rightarrow> real \<Rightarrow> string \<Rightarrow> string \<Rightarrow> fsys \<Rightarrow> dynamic_config \<times> fsys" where
  "init_dynamic_config write_ok now job dir fs =
     (let dc = \<lparr>job_name = job, save_root = dir,
                config_file = path_join dir ''dynamic_config.yaml'',
                last_modified = 0, config_cache = Dict Map.empty\<rparr>
      in (dc, ensure_config_file write_ok now dc fs))"

text \<open>
  \<open>load_config\<close>: every exception of the body is caught and answered with \<open>{}\<close>;
  opening a file that is still missing after \<open>ensure_config_file\<close> is one of them.
\<close>

definition load_config :: "bool \<Rightarrow> real \<Rightarrow> dynamic_config \<Rightarrow> fsys \<Rightarrow> config \<times> fsys" where
  "load_config write_ok now dc fs =
     (let fs1 = (if files fs (config_file dc) = None then ensure_config_file write_ok now dc fs
                 else fs);
          fs2 = fs1\<lparr>reads := Suc (reads fs1)\<rparr>
      in case files fs2 (config_file dc) of
           None \<Rightarrow> (Dict Map.empty, fs2)
         | Some f \<Rightarrow>
             (case content f of
                Unreadable \<Rightarrow> (Dict Map.empty, fs2)
              | Falsy \<Rightarrow> (Dict Map.empty, fs2)
              | Parsed cfg \<Rightarrow> (cfg, fs2)))"

text \<open>
  \<open>check_and_update\<close>. Between the existence test and \<open>getmtime\<close> nothing else runs
  here, so the handler of the \<open>try\<close> (which answers with the cache) is not reached.
\<close>

definition check_and_update ::
  "bool \<Rightarrow> real \<Rightarrow> dynamic_config \<times> fsys \<Rightarrow> config \<times> dynamic_config \<times> fsys" where
  "check_and_update write_ok now ds =
     (case ds of (dc, fs) \<Rightarrow>
        (case files fs (config_file dc) of
           None \<Rightarrow> (Dict Map.empty, dc, fs)
         | Some f \<Rightarrow>
             (let current_modified = mtime f
              in if current_modified \<le> last_modified dc then (config_cache dc, dc, fs)
                 else
                   (case load_config write_ok now dc fs of
                      (new_config, fs') \<Rightarrow>
                        (new_config,
                         dc\<lparr>last_modified := current_modified, config_cache := new_config\<rparr>,
                         fs')))))"

text \<open>\<open>config.get(key, default)\<close>: AttributeError on an object that is no dict.\<close>

definition config_get :: "config \<Rightarrow> string \<Rightarrow> pyval \<Rightarrow> exc + pyval" where
  "config_get cfg key dflt =
     (case cfg of
        NonDict \<Rightarrow> Inl AttributeError
      | Dict m \<Rightarrow> (case m key of None \<Rightarrow> Inr dflt | Some v \<Rightarrow> Inr v))"

text \<open>\<open>v > 0\<close> for an int (True is 1, False is 0); the code asks it for ints only.\<close>

fun gt_zero :: "pyval \<Rightarrow> bool" where
  "gt_zero (PInt i) = (i > 0)"
| "gt_zero (PBool b) = b"
| "gt_zero v = False"

definition get_sample_every ::
  "bool \<Rightarrow> real \<Rightarrow> pyval \<Rightarrow> dynamic_config \<times> fsys \<Rightarrow> (exc + pyval) \<times> dynamic_config \<times> fsys" where
  "get_sample_every write_ok now dflt ds =
     (case check_and_update write_ok now ds of
        (cfg, ds') \<Rightarrow>
          (case config_get cfg ''sample_every'' dflt of
             Inl e \<Rightarrow> (Inl e, ds')
           | Inr sample_every \<Rightarrow>
               (if isinstance_int sample_every \<and> gt_zero sample_every then (Inr sample_every, ds')
                else (Inr dflt, ds'))))"

definition get_save_every ::
  "bool \<Rightarrow> real \<Rightarrow> pyval \<Rightarrow> dynamic_config \<times> fsys \<Rightarrow> (exc + pyval) \<times> dynamic_config \<times> fsys" where
  "get_save_every write_ok now dflt ds =
     (case check_and_update write_ok now ds of
        (cfg, ds') \<Rightarrow>
          (case config_get cfg ''save_every'' dflt of
             Inl e \<Rightarrow> (Inl e, ds')
           | Inr save_every \<Rightarrow>
               (if save_every = PNone then (Inr dflt, ds')
                else if isinstance_int save_every \<and> gt_zero save_every then (Inr save_every, ds')
                else (Inr dflt, ds'))))"


section \<open>Concrete states\<close>

definition ev1 :: event where
  "ev1 = mk_event ''job_1_lr'' ''job'' 1 ''t0'' ''learning_rate'' ''lr'' (VFloat (Finite 1))"

definition c_empty :: collector where
  "c_empty = \<lparr>job_id = ''job'', db_path = ''db'', buffer = [], buffer_size = 10\<rparr>"

definition c_one :: collector where
  "c_one = \<lparr>job_id = ''job'', db_path = ''db'', buffer = [ev1], buffer_size = 10\<rparr>"

definition db_empty :: sqlite where
  "db_empty = \<lparr>tables = (\<lambda>p. Map.empty), connects = 0\<rparr>"

text \<open>A hash function for the concrete runs: Python fixes one per process.\<close>

definition hash0 :: "string \<Rightarrow> int" where
  "hash0 s = int (length s)"

definition ev_slash :: event where
  "ev_slash = mk_event ''job_1_loss_a_b'' ''job'' 1 ''t0'' ''loss'' ''a/b'' (VFloat (Finite 1))"

definition ev_under :: event where
  "ev_under = mk_event ''job_1_loss_a_b'' ''job'' 1 ''t0'' ''loss'' ''a_b'' (VFloat (Finite 2))"

definition call_collide :: report where
  "call_collide =
     Report Success ''t0'' 1 [(''a/b'', PFloat (Finite 1)), (''a_b'', PFloat (Finite 2))] PNone []"

definition ev_total1 :: event where
  "ev_total1 = mk_event ''job_1_loss_total'' ''job'' 1 ''t0'' ''loss'' ''total'' (VFloat (Finite 1))"

definition ev_total2 :: event where
  "ev_total2 = mk_event ''job_1_loss_total'' ''job'' 1 ''t1'' ''loss'' ''total'' (VFloat (Finite 2))"

definition calls_twice :: "report list" where
  "calls_twice =
     [Report Success ''t0'' 1 [(''total'', PFloat (Finite 1))] PNone [],
      Report FailBeforeCommit ''t1'' 1 [(''total'', PFloat (Finite 2))] PNone []]"

text \<open>A collector one event short of its threshold, and the next learning rate event.\<close>

definition c_nine :: collector where
  "c_nine = \<lparr>job_id = ''job'', db_path = ''db'', buffer = replicate 9 ev1, buffer_size = 10\<rparr>"

definition ev2 :: event where
  "ev2 = mk_event ''job_2_lr'' ''job'' 2 ''t1'' ''learning_rate'' ''lr'' (VFloat (Finite 1))"






text \<open>
  Two jobs that write to one database: job \<open>a\<close> reports the extra metric \<open>5_lr\<close> at step 1,
  job \<open>a_1_system\<close> reports its learning rate at step 5.
\<close>

definition c_a :: collector where
  "c_a = \<lparr>job_id = ''a'', db_path = ''db'', buffer = [], buffer_size = 10\<rparr>"

definition c_b :: collector where
  "c_b = \<lparr>job_id = ''a_1_system'', db_path = ''db'', buffer = [], buffer_size = 10\<rparr>"

definition ev_a :: event where
  "ev_a = mk_event ''a_1_system_5_lr'' ''a'' 1 ''t0'' ''system'' ''5_lr'' (VFloat (Finite 1))"

definition ev_b :: event where
  "ev_b = mk_event ''a_1_system_5_lr'' ''a_1_system'' 5 ''t1'' ''learning_rate'' ''lr''
            (VFloat (Finite 2))"

definition db_after_a :: sqlite where
  "db_after_a =
     snd (flush Success
       (snd (log_step_metrics hash0 Success ''t0'' 1 [] PNone [(''5_lr'', PFloat (Finite 1))]
          (c_a, db_empty))))"

definition db_after_b :: sqlite where
  "db_after_b =
     snd (flush Success
       (snd (log_step_metrics hash0 Success ''t1'' 5 [] (PFloat (Finite 2)) []
          (c_b, db_after_a))))"

text \<open>The registry before any job has asked for a collector.\<close>

definition m_empty :: manager where
  "m_empty = \<lparr>collectors = Map.empty, objects = []\<rparr>"

text \<open>The registry that holds, for the job \<open>job\<close>, a collector with one buffered event.\<close>

definition m_job :: manager where
  "m_job = \<lparr>collectors = [''job'' \<mapsto> 0], objects = [c_one]\<rparr>"

text \<open>
  A configuration store for the directory \<open>out\<close> that has not looked at its file yet, a
  file system without the file, and one where the file holds a document and carries a
  modification time.
\<close>

definition dc_out :: dynamic_config where
  "dc_out = \<lparr>job_name = ''job'', save_root = ''out'', config_file = ''out/dynamic_config.yaml'',
             last_modified = 0, config_cache = Dict Map.empty\<rparr>"

definition fs_none :: fsys where
  "fs_none = \<lparr>files = Map.empty, reads = 0\<rparr>"

definition fs_with :: "config \<Rightarrow> real \<Rightarrow> fsys" where
  "fs_with cfg t =
     \<lparr>files = [''out/dynamic_config.yaml'' \<mapsto> \<lparr>mtime = t, content = Parsed cfg\<rparr>], reads = 0\<rparr>"

section \<open>Batched upserts\<close>

text \<open>
  A batch leaves under every id the last row of the batch that carries it, and rows of
  other ids as they were. What the next flush will write is invariant: the table that a
  flush of the current buffer would produce is the table that upserting every event
  appended so far would produce, whatever the outcomes of the flushes in between.
\<close>

lemma executemany_snoc: "executemany (xs @ [x]) t = insert_or_replace x (executemany xs t)"
  by (simp add: executemany_def)

lemma find_last_snoc: "find_last P (xs @ [x]) = (if P x then Some x else find_last P xs)"
  by (simp add: find_last_def)

lemma executemany_lookup:
  "executemany evs t i =
     (case find_last (\<lambda>e. ev_id e = i) evs of None \<Rightarrow> t i | Some e \<Rightarrow> Some e)"
proof (induction evs rule: rev_induct)
  case Nil
  show ?case by (simp add: executemany_def find_last_def)
next
  case (snoc x xs)
  show ?case
    using snoc.IH by (simp add: executemany_snoc find_last_snoc insert_or_replace_def)
qed

lemma executemany_append: "executemany (xs @ ys) t = executemany ys (executemany xs t)"
  by (simp add: executemany_def)

lemma executemany_idem: "executemany evs (executemany evs t) = executemany evs t"
  by (rule ext) (simp add: executemany_lookup split: option.splits)

lemma flush_fields:
  "job_id (fst (flush oc (c, db))) = job_id c \<and> db_path (fst (flush oc (c, db))) = db_path c
   \<and> buffer_size (fst (flush oc (c, db))) = buffer_size c"
  by (cases oc) (simp_all add: flush_def Let_def)

lemma executemany_Nil: "executemany [] t = t"
  by (simp add: executemany_def)

lemma flush_pending:
  "executemany (buffer (fst (flush oc (c, db)))) (tables (snd (flush oc (c, db))) (db_path c))
     = executemany (buffer c) (tables db (db_path c))"
  by (cases oc) (simp_all add: flush_def Let_def executemany_idem executemany_Nil)

lemma log_step_fields:
  "job_id (fst (snd (log_step_metrics h oc ts step l lr kw (c, db)))) = job_id c \<and>
   db_path (fst (snd (log_step_metrics h oc ts step l lr kw (c, db)))) = db_path c \<and>
   buffer_size (fst (snd (log_step_metrics h oc ts step l lr kw (c, db)))) = buffer_size c"
proof -
  obtain r evs where e: "step_events h (job_id c) step ts l lr kw = (r, evs)"
    by (cases "step_events h (job_id c) step ts l lr kw")
  show ?thesis
    using flush_fields [of oc "c\<lparr>buffer := buffer c @ evs\<rparr>" db]
    by (cases r) (simp_all add: log_step_metrics_def Let_def e)
qed

lemma log_step_pending:
  "executemany (buffer (fst (snd (log_step_metrics h oc ts step l lr kw (c, db)))))
      (tables (snd (snd (log_step_metrics h oc ts step l lr kw (c, db)))) (db_path c))
     = executemany (buffer c @ snd (step_events h (job_id c) step ts l lr kw)) (tables db (db_path c))"
proof -
  obtain r evs where e: "step_events h (job_id c) step ts l lr kw = (r, evs)"
    by (cases "step_events h (job_id c) step ts l lr kw")
  show ?thesis
    using flush_pending [of oc "c\<lparr>buffer := buffer c @ evs\<rparr>" db]
    by (cases r) (simp_all add: log_step_metrics_def Let_def e)
qed

lemma run_reports_fields:
  "job_id (fst (run_reports h calls (c, db))) = job_id c \<and>
   db_path (fst (run_reports h calls (c, db))) = db_path c"
proof (induction calls arbitrary: c db)
  case Nil
  show ?case by simp
next
  case (Cons r rest)
  obtain oc ts step l lr kw where r: "r = Report oc ts step l lr kw" by (cases r)
  obtain c1 db1 where s: "snd (log_step_metrics h oc ts step l lr kw (c, db)) = (c1, db1)"
    by (cases "snd (log_step_metrics h oc ts step l lr kw (c, db))")
  have "job_id c1 = job_id c \<and> db_path c1 = db_path c"
    using log_step_fields [of h oc ts step l lr kw c db] s by simp
  then show ?case using Cons.IH [of c1 db1] r s by simp
qed

lemma run_reports_pending:
  "executemany (buffer (fst (run_reports h calls (c, db))))
      (tables (snd (run_reports h calls (c, db))) (db_path c))
     = executemany (buffer c @ reported h (job_id c) calls) (tables db (db_path c))"
proof (induction calls arbitrary: c db)
  case Nil
  show ?case by simp
next
  case (Cons r rest)
  obtain oc ts step l lr kw where r: "r = Report oc ts step l lr kw" by (cases r)
  obtain c1 db1 where s: "snd (log_step_metrics h oc ts step l lr kw (c, db)) = (c1, db1)"
    by (cases "snd (log_step_metrics h oc ts step l lr kw (c, db))")
  have f: "job_id c1 = job_id c \<and> db_path c1 = db_path c"
    using log_step_fields [of h oc ts step l lr kw c db] s by simp
  have p: "executemany (buffer c1) (tables db1 (db_path c))
     = executemany (buffer c @ snd (step_events h (job_id c) step ts l lr kw)) (tables db (db_path c))"
    using log_step_pending [of h oc ts step l lr kw c db] s by simp
  have "executemany (buffer (fst (run_reports h rest (c1, db1))))
      (tables (snd (run_reports h rest (c1, db1))) (db_path c))
     = executemany (buffer c1 @ reported h (job_id c) rest) (tables db1 (db_path c))"
    using Cons.IH [of c1 db1] f by simp
  also have "\<dots> = executemany (reported h (job_id c) rest) (executemany (buffer c1) (tables db1 (db_path c)))"
    by (simp add: executemany_append)
  also have "\<dots> = executemany (buffer c @ reported h (job_id c) (r # rest)) (tables db (db_path c))"
    by (simp add: p r executemany_append)
  finally show ?case using r s by simp
qed

section \<open>Decimal numerals in ids\<close>

text \<open>
  \<open>str\<close> of an int is injective and contains no underscore, so the step can be read
  back from an id once the job id is known.
\<close>

lemma digit_inj: "a < 10 \<Longrightarrow> b < 10 \<Longrightarrow> digit a = digit b \<Longrightarrow> a = b"
proof -
  assume a: "a < 10" and b: "b < 10" and e: "digit a = digit b"
  have "of_char (digit a) = (48 + a) mod 256" "of_char (digit b) = (48 + b) mod 256"
    by (simp_all add: digit_def)
  then have "(48 + a) mod 256 = (48 + b) mod 256" using e by simp
  then show "a = b" using a b by simp
qed

lemma digit_code: "d < 10 \<Longrightarrow> (of_char (digit d) :: nat) = 48 + d"
  by (simp add: digit_def)

lemma digit_not_underscore: "d < 10 \<Longrightarrow> digit d \<noteq> CHR ''_''"
proof
  assume d: "d < 10" and e: "digit d = CHR ''_''"
  have "(of_char (digit d) :: nat) = 48 + d" using d by (rule digit_code)
  then show False using d e by simp
qed

lemma digit_not_minus: "d < 10 \<Longrightarrow> digit d \<noteq> CHR ''-''"
proof
  assume d: "d < 10" and e: "digit d = CHR ''-''"
  have "(of_char (digit d) :: nat) = 48 + d" using d by (rule digit_code)
  then show False using d e by simp
qed

lemma str_nat_not_Nil: "str_nat n \<noteq> []"
  by (subst str_nat.simps) simp

lemma str_nat_no_underscore: "CHR ''_'' \<notin> set (str_nat n)"
proof (induction n rule: str_nat.induct)
  case (1 n)
  show ?case
  proof (cases "n < 10")
    case True
    then show ?thesis using digit_not_underscore [of n] by (subst str_nat.simps) auto
  next
    case False
    have "n mod 10 < 10" by simp
    then have "digit (n mod 10) \<noteq> CHR ''_''" by (rule digit_not_underscore)
    then show ?thesis using False 1 by (subst str_nat.simps) auto
  qed
qed

lemma str_nat_hd_not_minus: "hd (str_nat n) \<noteq> CHR ''-''"
proof (induction n rule: str_nat.induct)
  case (1 n)
  show ?case
  proof (cases "n < 10")
    case True
    then show ?thesis using digit_not_minus [of n] by (subst str_nat.simps) auto
  next
    case False
    then show ?thesis using 1 str_nat_not_Nil [of "n div 10"] by (subst str_nat.simps) simp
  qed
qed

lemma str_nat_inj: "str_nat n = str_nat m \<Longrightarrow> n = m"
proof (induction n arbitrary: m rule: str_nat.induct)
  case (1 n)
  show ?case
  proof (cases "n < 10")
    case n: True
    show ?thesis
    proof (cases "m < 10")
      case True
      then show ?thesis using n "1.prems" digit_inj [of n m]
        by (simp add: str_nat.simps [of n] str_nat.simps [of m])
    next
      case False
      then show ?thesis using n "1.prems" str_nat_not_Nil [of "m div 10"]
        by (simp add: str_nat.simps [of n] str_nat.simps [of m])
    qed
  next
    case n: False
    show ?thesis
    proof (cases "m < 10")
      case True
      then show ?thesis using n "1.prems" str_nat_not_Nil [of "n div 10"]
        by (simp add: str_nat.simps [of n] str_nat.simps [of m])
    next
      case False
      then have e: "str_nat (n div 10) = str_nat (m div 10)" "digit (n mod 10) = digit (m mod 10)"
        using n "1.prems" by (simp_all add: str_nat.simps [of n] str_nat.simps [of m])
      have "n div 10 = m div 10" using "1.IH" [OF n e(1)] .
      moreover have "n mod 10 = m mod 10" using digit_inj [OF _ _ e(2)] by simp
      ultimately show ?thesis by (metis div_mult_mod_eq)
    qed
  qed
qed

lemma str_int_no_underscore: "CHR ''_'' \<notin> set (str_int i)"
  by (simp add: str_int_def str_nat_no_underscore)

lemma str_int_inj: "str_int i = str_int j \<Longrightarrow> i = j"
proof -
  assume e: "str_int i = str_int j"
  have h: "\<And>n k. CHR ''-'' # str_nat n \<noteq> str_nat k"
  proof
    fix n k assume "CHR ''-'' # str_nat n = str_nat k"
    then have "hd (str_nat k) = CHR ''-''" by (metis list.sel(1))
    then show False using str_nat_hd_not_minus by simp
  qed
  show "i = j"
  proof (cases "i < 0")
    case i: True
    show ?thesis
    proof (cases "j < 0")
      case True
      then have "nat (- i) = nat (- j)" using i e str_nat_inj by (simp add: str_int_def)
      then show ?thesis using i True by simp
    next
      case False
      then show ?thesis using i e h by (simp add: str_int_def)
    qed
  next
    case i: False
    show ?thesis
    proof (cases "j < 0")
      case True
      then show ?thesis using i e h [of "nat (- j)" "nat i"] by (simp add: str_int_def)
    next
      case False
      then have "nat i = nat j" using i e str_nat_inj by (simp add: str_int_def)
      then show ?thesis using i False by simp
    qed
  qed
qed

lemma split_at_char:
  "c \<notin> set xs \<Longrightarrow> c \<notin> set ys \<Longrightarrow> xs @ c # us = ys @ c # vs \<Longrightarrow> xs = ys \<and> us = vs"
proof (induction xs arbitrary: ys)
  case Nil
  then show ?case by (cases ys) auto
next
  case (Cons x xs)
  then show ?case by (cases ys) auto
qed

section \<open>Event ids\<close>

text \<open>
  Every event a call appends carries the job id of the collector and the id derived from
  its own (job_id, step, metric_type, metric_name). Within one job, two such ids are
  equal exactly when step, metric type and the name as it enters the id are equal.
\<close>

lemma loss_events_ok: "e \<in> set (snd (loss_events job step ts l)) \<Longrightarrow> event_ok job e"
proof (induction l)
  case Nil
  then show ?case by simp
next
  case (Cons kv l)
  obtain key v where kv: "kv = (key, v)" by (cases kv)
  show ?case
    using Cons
    by (auto simp: kv event_ok_def metric_key_def event_id_def mk_event_def
        split: if_splits sum.splits prod.splits)
qed

lemma lr_events_ok: "e \<in> set (snd (lr_events job step ts lr)) \<Longrightarrow> event_ok job e"
  by (auto simp: lr_events_def event_ok_def metric_key_def event_id_def mk_event_def
      split: if_splits sum.splits)

lemma kwargs_events_ok: "e \<in> set (snd (kwargs_events h job step ts kw)) \<Longrightarrow> event_ok job e"
proof (induction kw)
  case Nil
  then show ?case by simp
next
  case (Cons kv kw)
  obtain key v where kv: "kv = (key, v)" by (cases kv)
  show ?case
    using Cons
    by (auto simp: kv event_ok_def metric_key_def event_id_def mk_event_def
        split: if_splits sum.splits prod.splits pyval.splits)
qed

lemma step_events_set:
  "set (snd (step_events h job step ts l lr kw))
     \<subseteq> set (snd (loss_events job step ts l)) \<union> set (snd (lr_events job step ts lr))
        \<union> set (snd (kwargs_events h job step ts kw))"
  by (auto simp: step_events_def split: prod.splits option.splits)

lemma step_events_ok: "e \<in> set (snd (step_events h job step ts l lr kw)) \<Longrightarrow> event_ok job e"
  using step_events_set [of h job step ts l lr kw] loss_events_ok lr_events_ok kwargs_events_ok
  by blast

lemma reported_ok: "e \<in> set (reported h job calls) \<Longrightarrow> event_ok job e"
proof (induction calls)
  case Nil
  then show ?case by simp
next
  case (Cons r rest)
  obtain oc ts step l lr kw where r: "r = Report oc ts step l lr kw" by (cases r)
  show ?case using Cons step_events_ok by (auto simp: r)
qed

lemma id_shape:
  "event_id (job, s, ty, n) = job @ ''_'' @ str_int s @ CHR ''_'' #
     (if ty = ''loss'' then ''loss_'' @ safe_key n
      else if ty = ''learning_rate'' then ''lr''
      else if ty = ''system'' then ''system_'' @ n
      else ''info_'' @ n)"
  by (simp add: event_id_def loss_id_def lr_id_def system_id_def info_id_def)

lemma same_job_same_id:
  assumes a: "event_ok job a" and b: "event_ok job b"
  shows "ev_id a = ev_id b \<longleftrightarrow>
     ev_step a = ev_step b \<and> ev_metric_type a = ev_metric_type b \<and> id_name a = id_name b"
proof
  assume e: "ev_id a = ev_id b"
  have ia: "ev_id a = event_id (job, ev_step a, ev_metric_type a, ev_metric_name a)"
    and ib: "ev_id b = event_id (job, ev_step b, ev_metric_type b, ev_metric_name b)"
    using a b by (simp_all add: event_ok_def metric_key_def)
  let ?ta = "(if ev_metric_type a = ''loss'' then ''loss_'' @ safe_key (ev_metric_name a)
      else if ev_metric_type a = ''learning_rate'' then ''lr''
      else if ev_metric_type a = ''system'' then ''system_'' @ ev_metric_name a
      else ''info_'' @ ev_metric_name a)"
  let ?tb = "(if ev_metric_type b = ''loss'' then ''loss_'' @ safe_key (ev_metric_name b)
      else if ev_metric_type b = ''learning_rate'' then ''lr''
      else if ev_metric_type b = ''system'' then ''system_'' @ ev_metric_name b
      else ''info_'' @ ev_metric_name b)"
  have "str_int (ev_step a) @ CHR ''_'' # ?ta = str_int (ev_step b) @ CHR ''_'' # ?tb"
    using e unfolding ia ib id_shape by simp
  then have s: "str_int (ev_step a) = str_int (ev_step b)" and t: "?ta = ?tb"
    using split_at_char [OF str_int_no_underscore str_int_no_underscore] by blast+
  have "ev_step a = ev_step b" using s by (rule str_int_inj)
  moreover have "ev_metric_type a = ev_metric_type b \<and> id_name a = id_name b"
    using t a b by (auto simp: event_ok_def id_name_def split: if_splits)
  ultimately show "ev_step a = ev_step b \<and> ev_metric_type a = ev_metric_type b \<and> id_name a = id_name b"
    by simp
next
  assume e: "ev_step a = ev_step b \<and> ev_metric_type a = ev_metric_type b \<and> id_name a = id_name b"
  have ia: "ev_id a = event_id (job, ev_step a, ev_metric_type a, ev_metric_name a)"
    and ib: "ev_id b = event_id (job, ev_step b, ev_metric_type b, ev_metric_name b)"
    using a b by (simp_all add: event_ok_def metric_key_def)
  show "ev_id a = ev_id b"
    unfolding ia ib id_shape using e a b
    by (auto simp: event_ok_def id_name_def split: if_splits)
qed

section \<open>Concrete runs\<close>

lemma str_int_1: "str_int 1 = ''1''"
  by code_simp

lemma reported_collide: "reported hash0 ''job'' [call_collide] = [ev_slash, ev_under]"
  by (simp add: call_collide_def step_events_def lr_events_def is_number_def loss_id_def
      safe_key_def replace_def str_int_1 ev_slash_def ev_under_def)

lemma reported_twice: "reported hash0 ''job'' calls_twice = [ev_total1, ev_total2]"
  by (simp add: calls_twice_def step_events_def lr_events_def is_number_def loss_id_def
      safe_key_def replace_def str_int_1 ev_total1_def ev_total2_def)

section \<open>One row per id\<close>

text \<open>
  The upsert. After any sequence of calls on one collector (whatever the outcomes of the
  flushes they trigger, and whether or not a call raises) and a final flush that
  succeeds, the buffer is empty and the table of the collector's database holds, under
  every id, the last appended event with that id, and the old row under an id that no
  event carries. Within the job two appended events share an id exactly when they agree
  on step, metric type and the name as it enters the id.
\<close>

lemma last_event_per_id:
  assumes run: "run_reports hash calls (c, db) = (c1, db1)"
    and fl: "flush Success (c1, db1) = (c2, db2)"
  shows "buffer c2 = [] \<and>
     (\<forall>i. tables db2 (db_path c) i =
        (case find_last (\<lambda>e. ev_id e = i) (buffer c @ reported hash (job_id c) calls) of
           None \<Rightarrow> tables db (db_path c) i
         | Some e \<Rightarrow> Some e)) \<and>
     (\<forall>a \<in> set (reported hash (job_id c) calls). \<forall>b \<in> set (reported hash (job_id c) calls).
        ev_id a = ev_id b \<longleftrightarrow>
          ev_step a = ev_step b \<and> ev_metric_type a = ev_metric_type b \<and> id_name a = id_name b)"
proof -
  have b: "buffer c2 = []"
    using fl by (auto simp: flush_def Let_def split: if_splits)
  have p: "db_path c1 = db_path c"
    using run_reports_fields [of hash calls c db] run by simp
  have "executemany (buffer c2) (tables db2 (db_path c1)) = executemany (buffer c1) (tables db1 (db_path c1))"
    using flush_pending [of Success c1 db1] fl by simp
  then have "tables db2 (db_path c) = executemany (buffer c1) (tables db1 (db_path c))"
    using b p by (simp add: executemany_Nil)
  also have "\<dots> = executemany (buffer c @ reported hash (job_id c) calls) (tables db (db_path c))"
    using run_reports_pending [of hash calls c db] run by simp
  finally have t: "tables db2 (db_path c)
     = executemany (buffer c @ reported hash (job_id c) calls) (tables db (db_path c))" .
  have ids: "\<forall>a \<in> set (reported hash (job_id c) calls). \<forall>b \<in> set (reported hash (job_id c) calls).
        ev_id a = ev_id b \<longleftrightarrow>
          ev_step a = ev_step b \<and> ev_metric_type a = ev_metric_type b \<and> id_name a = id_name b"
    using same_job_same_id reported_ok by blast
  show ?thesis using b t ids by (simp add: executemany_lookup)
qed

lemma last_event_per_id_twice:
  "buffer (fst (flush Success (run_reports hash0 calls_twice (c_empty, db_empty)))) = [] \<and>
   tables (snd (flush Success (run_reports hash0 calls_twice (c_empty, db_empty)))) ''db''
      ''job_1_loss_total'' = Some ev_total2 \<and>
   tables (snd (flush Success (run_reports hash0 calls_twice (c_empty, db_empty)))) ''db''
      ''job_1_loss_other'' = None \<and>
   ev_id ev_total1 = ev_id ev_total2"
proof -
  have r: "run_reports hash0 calls_twice (c_empty, db_empty)
     = (fst (run_reports hash0 calls_twice (c_empty, db_empty)),
        snd (run_reports hash0 calls_twice (c_empty, db_empty)))"
    by simp
  have f: "flush Success (fst (run_reports hash0 calls_twice (c_empty, db_empty)),
        snd (run_reports hash0 calls_twice (c_empty, db_empty)))
     = (fst (flush Success (run_reports hash0 calls_twice (c_empty, db_empty))),
        snd (flush Success (run_reports hash0 calls_twice (c_empty, db_empty))))"
    by simp
  have j: "job_id c_empty = ''job''" "db_path c_empty = ''db''" "buffer c_empty = []"
    by (simp_all add: c_empty_def)
  show ?thesis
    using last_event_per_id [OF r f]
    unfolding j reported_twice
    by (simp add: find_last_def ev_total1_def ev_total2_def mk_event_def db_empty_def
        id_name_def)
qed

lemma table_collide:
  "tables (snd (flush Success (run_reports hash0 [call_collide] (c_empty, db_empty)))) ''db''
     = [''job_1_loss_a_b'' \<mapsto> ev_under]"
proof -
  have "snd (log_step_metrics hash0 Success ''t0'' 1
         [(''a/b'', PFloat (Finite 1)), (''a_b'', PFloat (Finite 2))] PNone [] (c_empty, db_empty))
      = (c_empty\<lparr>buffer := [ev_slash, ev_under]\<rparr>, db_empty)"
    by (simp add: log_step_metrics_def Let_def c_empty_def step_events_def lr_events_def
        is_number_def loss_id_def safe_key_def replace_def str_int_1 ev_slash_def ev_under_def)
  then show ?thesis
    by (simp add: call_collide_def flush_def Let_def c_empty_def db_empty_def executemany_def
        insert_or_replace_def ev_slash_def ev_under_def mk_event_def)
qed

lemma str_int_5: "str_int 5 = ''5''"
  by code_simp

lemma events_a:
  "snd (step_events hash0 ''a'' 1 ''t0'' [] PNone [(''5_lr'', PFloat (Finite 1))]) = [ev_a]"
  by (simp add: step_events_def lr_events_def is_number_def system_id_def str_int_1 ev_a_def)

lemma events_b:
  "snd (step_events hash0 ''a_1_system'' 5 ''t1'' [] (PFloat (Finite 2)) []) = [ev_b]"
  by (simp add: step_events_def lr_events_def is_number_def lr_id_def str_int_5 ev_b_def)

lemma table_after_a: "tables db_after_a ''db'' = [''a_1_system_5_lr'' \<mapsto> ev_a]"
proof -
  have "snd (log_step_metrics hash0 Success ''t0'' 1 [] PNone [(''5_lr'', PFloat (Finite 1))]
          (c_a, db_empty)) = (c_a\<lparr>buffer := [ev_a]\<rparr>, db_empty)"
    by (simp add: log_step_metrics_def Let_def c_a_def step_events_def lr_events_def
        is_number_def system_id_def str_int_1 ev_a_def)
  then show ?thesis
    by (simp add: db_after_a_def flush_def Let_def c_a_def db_empty_def executemany_def
        insert_or_replace_def ev_a_def mk_event_def)
qed

lemma table_after_b: "tables db_after_b ''db'' = [''a_1_system_5_lr'' \<mapsto> ev_b]"
proof -
  have "snd (log_step_metrics hash0 Success ''t1'' 5 [] (PFloat (Finite 2)) []
          (c_b, db_after_a)) = (c_b\<lparr>buffer := [ev_b]\<rparr>, db_after_a)"
    by (simp add: log_step_metrics_def Let_def c_b_def step_events_def lr_events_def
        is_number_def lr_id_def str_int_5 ev_b_def)
  then show ?thesis
    using table_after_a
    by (simp add: db_after_b_def flush_def Let_def c_b_def executemany_def
        insert_or_replace_def ev_a_def ev_b_def mk_event_def)
qed

text \<open>
  C1. The id is not collision-free across distinct (job_id, step, metric_type,
  metric_name) tuples, and a successful flush then keeps one row for two tuples.
  Within one job: the loss names \<open>a/b\<close> and \<open>a_b\<close> of step 1 are sanitised to the same
  id \<open>job_1_loss_a_b\<close> (the row keeps the raw name, and the ids of the system and info
  metrics take the key unsanitised), and after the flush the table holds the row of
  \<open>a_b\<close> only. Across jobs: the parts of an id are joined by \<open>_\<close> with the job id
  pasted in as it is, so the system metric \<open>5_lr\<close> of job \<open>a\<close> at step 1 and the learning
  rate of job \<open>a_1_system\<close> at step 5 both get the id \<open>a_1_system_5_lr\<close>; the row of the
  first job is in the table after its flush and is replaced by the row of the second
  job after that one's flush.
\<close>

theorem distinct_metrics_share_id:
  "metric_key ev_slash \<noteq> metric_key ev_under \<and>
   reported hash0 ''job'' [call_collide] = [ev_slash, ev_under] \<and>
   tables (snd (flush Success (run_reports hash0 [call_collide] (c_empty, db_empty)))) ''db''
     = [''job_1_loss_a_b'' \<mapsto> ev_under] \<and>
   metric_key ev_a \<noteq> metric_key ev_b \<and>
   snd (step_events hash0 ''a'' 1 ''t0'' [] PNone [(''5_lr'', PFloat (Finite 1))]) = [ev_a] \<and>
   snd (step_events hash0 ''a_1_system'' 5 ''t1'' [] (PFloat (Finite 2)) []) = [ev_b] \<and>
   tables db_after_a ''db'' = [''a_1_system_5_lr'' \<mapsto> ev_a] \<and>
   tables db_after_b ''db'' = [''a_1_system_5_lr'' \<mapsto> ev_b]"
proof -
  have k1: "metric_key ev_slash \<noteq> metric_key ev_under"
    by (simp add: metric_key_def ev_slash_def ev_under_def mk_event_def)
  have k2: "metric_key ev_a \<noteq> metric_key ev_b"
    by (simp add: metric_key_def ev_a_def ev_b_def mk_event_def)
  show ?thesis
    using k1 k2 reported_collide table_collide events_a events_b table_after_a table_after_b
    by simp
qed

section \<open>Concurrent callers of the registry\<close>

text \<open>One thread that runs its three steps undisturbed does what \<open>get_collector\<close> does.\<close>

lemma get_collector_steps:
  "run_schedule d [0, 0, 0] ([caller job path], m, db) =
     (case get_collector d job path (m, db) of
        (r, m', db') \<Rightarrow> ([\<lparr>t_job = job, t_path = path, t_pc = Returned r\<rparr>], m', db'))"
  by (cases "collectors m job")
    (simp_all add: caller_def thread_step_def check_step_def store_step_def lookup_step_def
      get_collector_def init_collector_def split: prod.splits)

text \<open>
  C9. Two threads ask for the collector of the same job, which the registry has never
  seen. When both make the membership test before either stores (first thread tests,
  second thread tests, first thread stores and looks up, second thread stores and looks
  up), two collectors are constructed and the callers return different objects, the
  references 0 and 1. When the calls run one after the other, one collector is
  constructed and both callers return it.
\<close>

theorem concurrent_get_collector_two_engines:
  "map t_pc (fst (run_schedule ''d'' [0, 1, 0, 0, 1, 1]
       ([caller ''job'' None, caller ''job'' None], m_empty, db_empty)))
     = [Returned 0, Returned 1] \<and>
   length (objects (fst (snd (run_schedule ''d'' [0, 1, 0, 0, 1, 1]
       ([caller ''job'' None, caller ''job'' None], m_empty, db_empty))))) = 2 \<and>
   map t_pc (fst (run_schedule ''d'' [0, 0, 0, 1, 1, 1]
       ([caller ''job'' None, caller ''job'' None], m_empty, db_empty)))
     = [Returned 0, Returned 0] \<and>
   length (objects (fst (snd (run_schedule ''d'' [0, 0, 0, 1, 1, 1]
       ([caller ''job'' None, caller ''job'' None], m_empty, db_empty))))) = 1"
  by (simp add: caller_def m_empty_def db_empty_def thread_step_def check_step_def
      store_step_def lookup_step_def init_collector_def)

section \<open>Flush\<close>

text \<open>
  C2. \<open>flush\<close> with an empty buffer changes nothing and opens no connection. With a
  non-empty buffer it opens one connection and hands the whole buffer to one batched
  upsert; the buffer is emptied exactly when the outcome is success, and after a failed
  write the buffered events are all still there.
\<close>

theorem flush_clears_only_on_success:
  "(buffer c = [] \<longrightarrow> flush oc (c, db) = (c, db)) \<and>
   (buffer c \<noteq> [] \<longrightarrow>
      connects (snd (flush oc (c, db))) = Suc (connects db) \<and>
      (oc = Success \<longrightarrow>
         buffer (fst (flush oc (c, db))) = [] \<and>
         tables (snd (flush oc (c, db))) (db_path c)
           = executemany (buffer c) (tables db (db_path c))) \<and>
      (oc \<noteq> Success \<longrightarrow> buffer (fst (flush oc (c, db))) = buffer c) \<and>
      (oc = FailBeforeCommit \<longrightarrow> tables (snd (flush oc (c, db))) = tables db))"
  by (cases oc) (simp_all add: flush_def Let_def)

theorem flush_clears_only_on_success_witness:
  "flush Success (c_empty, db_empty) = (c_empty, db_empty) \<and>
   connects (snd (flush Success (c_one, db_empty))) = 1 \<and>
   buffer (fst (flush Success (c_one, db_empty))) = [] \<and>
   tables (snd (flush Success (c_one, db_empty))) ''db'' ''job_1_lr'' = Some ev1 \<and>
   buffer (fst (flush FailBeforeCommit (c_one, db_empty))) = [ev1] \<and>
   tables (snd (flush FailBeforeCommit (c_one, db_empty))) = tables db_empty"
  using flush_clears_only_on_success [of c_empty Success db_empty]
    flush_clears_only_on_success [of c_one Success db_empty]
    flush_clears_only_on_success [of c_one FailBeforeCommit db_empty]
  by (simp add: c_empty_def c_one_def db_empty_def ev1_def mk_event_def executemany_def
      insert_or_replace_def)

section \<open>The registry\<close>

lemma get_collector_ok:
  "manager_ok m \<Longrightarrow> manager_ok (fst (snd (get_collector d job path (m, db))))"
  by (auto simp: manager_ok_def get_collector_def init_collector_def less_Suc_eq
      split: option.splits)

lemma cleanup_collector_ok:
  "manager_ok m \<Longrightarrow> manager_ok (fst (cleanup_collector oc job (m, db)))"
  by (auto simp: manager_ok_def cleanup_collector_def split: option.splits prod.splits)

text \<open>
  C8. For a job the registry does not hold, \<open>get_collector\<close> constructs a collector
  (for the job, at the path given when there is one), stores it under the next free
  reference and returns that reference; from then on every call for the job, whatever
  path it gives, returns the same reference and changes nothing. For a job the registry
  holds, \<open>get_collector\<close> returns its reference and changes nothing.
  \<open>cleanup_collector\<close> for a job the registry holds runs \<open>cleanup\<close> (the final flush)
  on its collector and removes the job, leaving the other jobs alone; for a job the
  registry does not hold it changes nothing.
\<close>

theorem registry_get_or_create_release:
  assumes ok: "manager_ok m"
  shows "(collectors m job = None \<longrightarrow>
       (case get_collector d job path (m, db) of
          (r, m1, db1) \<Rightarrow>
            r = length (objects m) \<and> collectors m1 job = Some r \<and>
            objects m1 = objects m @ [fst (init_collector d job path db)] \<and>
            db1 = snd (init_collector d job path db) \<and>
            job_id (objects m1 ! r) = job \<and>
            (\<forall>p. path = Some p \<and> p \<noteq> [] \<longrightarrow> db_path (objects m1 ! r) = p) \<and>
            (\<forall>d2 path2 db2. get_collector d2 job path2 (m1, db2) = (r, m1, db2)))) \<and>
     (\<forall>r. collectors m job = Some r \<longrightarrow> get_collector d job path (m, db) = (r, m, db)) \<and>
     (\<forall>r. collectors m job = Some r \<longrightarrow>
       (case cleanup_collector oc job (m, db) of
          (m2, db2) \<Rightarrow>
            r < length (objects m) \<and>
            (objects m2 ! r, db2) = cleanup oc (objects m ! r, db) \<and>
            collectors m2 job = None \<and>
            (\<forall>j. j \<noteq> job \<longrightarrow> collectors m2 j = collectors m j))) \<and>
     (collectors m job = None \<longrightarrow> cleanup_collector oc job (m, db) = (m, db))"
proof -
  have a: "collectors m job = None \<longrightarrow>
       (case get_collector d job path (m, db) of
          (r, m1, db1) \<Rightarrow>
            r = length (objects m) \<and> collectors m1 job = Some r \<and>
            objects m1 = objects m @ [fst (init_collector d job path db)] \<and>
            db1 = snd (init_collector d job path db) \<and>
            job_id (objects m1 ! r) = job \<and>
            (\<forall>p. path = Some p \<and> p \<noteq> [] \<longrightarrow> db_path (objects m1 ! r) = p) \<and>
            (\<forall>d2 path2 db2. get_collector d2 job path2 (m1, db2) = (r, m1, db2)))"
    by (simp add: get_collector_def init_collector_def)
  have b: "\<forall>r. collectors m job = Some r \<longrightarrow> get_collector d job path (m, db) = (r, m, db)"
    by (simp add: get_collector_def)
  have c: "\<forall>r. collectors m job = Some r \<longrightarrow>
       (case cleanup_collector oc job (m, db) of
          (m2, db2) \<Rightarrow>
            r < length (objects m) \<and>
            (objects m2 ! r, db2) = cleanup oc (objects m ! r, db) \<and>
            collectors m2 job = None \<and>
            (\<forall>j. j \<noteq> job \<longrightarrow> collectors m2 j = collectors m j))"
    using ok by (auto simp: cleanup_collector_def manager_ok_def split: prod.splits)
  have e: "collectors m job = None \<longrightarrow> cleanup_collector oc job (m, db) = (m, db)"
    by (simp add: cleanup_collector_def)
  show ?thesis using a b c e by blast
qed

theorem registry_get_or_create_release_witness:
  "manager_ok m_empty \<and> manager_ok m_job \<and>
   fst (get_collector ''d'' ''job'' (Some ''x'') (m_empty, db_empty)) = 0 \<and>
   db_path (objects (fst (snd (get_collector ''d'' ''job'' (Some ''x'') (m_empty, db_empty)))) ! 0)
     = ''x'' \<and>
   get_collector ''d'' ''job'' (Some ''x'') (m_job, db_empty) = (0, m_job, db_empty) \<and>
   collectors (fst (cleanup_collector Success ''job'' (m_job, db_empty))) ''job'' = None \<and>
   tables (snd (cleanup_collector Success ''job'' (m_job, db_empty))) ''db'' ''job_1_lr'' = Some ev1 \<and>
   cleanup_collector Success ''job'' (m_empty, db_empty) = (m_empty, db_empty)"
proof -
  have e: "manager_ok m_empty" by (simp add: manager_ok_def m_empty_def)
  have j: "manager_ok m_job" by (simp add: manager_ok_def m_job_def)
  show ?thesis
    using registry_get_or_create_release [OF e, of "''job''" "''d''" "Some ''x''" db_empty Success]
      registry_get_or_create_release [OF j, of "''job''" "''d''" "Some ''x''" db_empty Success]
      e j
    by (simp add: m_empty_def m_job_def cleanup_def flush_def Let_def c_one_def db_empty_def
        executemany_def insert_or_replace_def ev1_def mk_event_def init_collector_def
        split: prod.splits)
qed

section \<open>Cadence values\<close>




section \<open>Checking the file for changes\<close>

text \<open>
  A file whose modification time is not newer than the last one seen is not read: the
  cache is the answer and nothing changes. A file with a newer modification time is read
  once, and what it parses to (\<open>{}\<close> when it cannot be read or is empty) replaces the
  cache, together with the modification time.
\<close>

lemma check_and_update_cached:
  assumes "files fs (config_file dc) = Some f" and "mtime f \<le> last_modified dc"
  shows "check_and_update write_ok now (dc, fs) = (config_cache dc, dc, fs)"
  using assms by (simp add: check_and_update_def Let_def)

lemma check_and_update_reload:
  assumes "files fs (config_file dc) = Some f" and "last_modified dc < mtime f"
  shows "check_and_update write_ok now (dc, fs) =
     (let cfg = (case content f of Parsed c \<Rightarrow> c | _ \<Rightarrow> Dict Map.empty)
      in (cfg, dc\<lparr>last_modified := mtime f, config_cache := cfg\<rparr>, fs\<lparr>reads := Suc (reads fs)\<rparr>))"
  using assms by (simp add: check_and_update_def load_config_def Let_def split: content.splits)

text \<open>
  C4. With the file missing, \<open>get_sample_every(100)\<close> returns 100 and leaves the file
  system as it is: the file is not recreated, although \<open>load_config\<close>, which
  \<open>check_and_update\<close> returns too early to reach, recreates a missing file with the
  defaults. On the first check of a file whose modification time is 0, the file, which
  says \<open>sample_every: 7\<close>, is not read: the last modification time seen starts at 0, the
  empty cache is the answer, and the call returns the default 100.
\<close>

theorem missing_file_not_recreated:
  "get_sample_every True 2 (PInt 100) (dc_out, fs_none) = (Inr (PInt 100), dc_out, fs_none) \<and>
   files (snd (load_config True 2 dc_out fs_none)) ''out/dynamic_config.yaml''
     = Some \<lparr>mtime = 2, content = Parsed (default_config 2)\<rparr> \<and>
   get_sample_every True 2 (PInt 100) (dc_out, fs_with (Dict [''sample_every'' \<mapsto> PInt 7]) 0)
     = (Inr (PInt 100), dc_out, fs_with (Dict [''sample_every'' \<mapsto> PInt 7]) 0)"
  by (simp add: get_sample_every_def check_and_update_def load_config_def Let_def dc_out_def
      fs_none_def fs_with_def config_get_def ensure_config_file_def save_config_def)

section \<open>Constructing the configuration store\<close>

text \<open>
  C7, as stated, fails: for the job \<open>job\<close> and the directory \<open>out\<close> the path of the file
  is \<open>out/dynamic_config.yaml\<close>, without the job; and when the file cannot be written
  (\<open>save_config\<close> catches the exception), no file exists after the construction.
\<close>

theorem config_path_without_job:
  "config_file (fst (init_dynamic_config True 1 ''job'' ''out'' fs_none))
     = ''out/dynamic_config.yaml'' \<and>
   config_file (fst (init_dynamic_config True 1 ''job'' ''out'' fs_none))
     \<noteq> path_join (path_join ''out'' ''job'') ''dynamic_config.yaml'' \<and>
   files (snd (init_dynamic_config False 1 ''job'' ''out'' fs_none)) ''out/dynamic_config.yaml''
     = None"
  by (simp add: init_dynamic_config_def Let_def path_join_def fs_none_def
      ensure_config_file_def save_config_def)

text \<open>
  C7, as the code has it. The path of the file is \<open>dynamic_config.yaml\<close> joined to the
  root directory. When no file is there, the construction writes one with the defaults
  (\<open>sample_every\<close> 100, \<open>save_every\<close> and \<open>log_every\<close> None, and the time of the write)
  if the file can be written, and leaves the file system as it is otherwise. In both
  cases \<open>get_save_every\<close> then returns the default of the caller and leaves the files as
  the construction left them.
\<close>

theorem init_creates_defaults:
  assumes absent: "files fs (path_join dir ''dynamic_config.yaml'') = None"
  shows "(case init_dynamic_config write_ok now job dir fs of
       (dc, fs1) \<Rightarrow>
         config_file dc = path_join dir ''dynamic_config.yaml'' \<and>
         (write_ok \<longrightarrow>
            fs1 = fs\<lparr>files := (files fs)(config_file dc \<mapsto>
                     \<lparr>mtime = now, content = Parsed (default_config now)\<rparr>)\<rparr>) \<and>
         (\<not> write_ok \<longrightarrow> fs1 = fs) \<and>
         (case get_save_every write_ok2 now2 dflt (dc, fs1) of
            (r, dc2, fs2) \<Rightarrow>
              r = Inr dflt \<and> files fs2 = files fs1))"
  using absent
  by (simp add: init_dynamic_config_def Let_def ensure_config_file_def save_config_def
      get_save_every_def check_and_update_def load_config_def default_config_def config_get_def)

theorem init_creates_defaults_witness:
  "config_file (fst (init_dynamic_config True 1 ''job'' ''out'' fs_none))
     = ''out/dynamic_config.yaml'' \<and>
   fst (get_save_every True 2 (PInt 500) (init_dynamic_config True 1 ''job'' ''out'' fs_none))
     = Inr (PInt 500) \<and>
   files (snd (snd (get_save_every True 2 (PInt 500)
       (init_dynamic_config True 1 ''job'' ''out'' fs_none)))) ''out/dynamic_config.yaml''
     = Some \<lparr>mtime = 1, content = Parsed (default_config 1)\<rparr>"
proof -
  have a: "files fs_none (path_join ''out'' ''dynamic_config.yaml'') = None"
    by (simp add: fs_none_def)
  have p: "path_join ''out'' ''dynamic_config.yaml'' = ''out/dynamic_config.yaml''"
    by (simp add: path_join_def)
  show ?thesis
    using init_creates_defaults [where write_ok = True and now = 1 and job = "''job''"
        and ?write_ok2.0 = True and ?now2.0 = 2 and dflt = "PInt 500", OF a]
    by (simp add: p fs_none_def split: prod.splits)
qed

section \<open>The threshold\<close>

lemma str_int_2: "str_int 2 = ''2''"
  by code_simp

lemma events_lr2:
  "step_events hash0 ''job'' 2 ''t1'' [] (PFloat (Finite 1)) [] = (None, [ev2])"
  by (simp add: step_events_def lr_events_def is_number_def lr_id_def str_int_2 ev2_def)

text \<open>
  C3, as stated, fails: a call that brings the buffer from 9 events to 10 triggers one
  flush (one connection is opened), and when the write of that flush fails the call
  returns with all 10 events still in the buffer.
\<close>

theorem failed_flush_keeps_buffer:
  "log_step_metrics hash0 FailBeforeCommit ''t1'' 2 [] (PFloat (Finite 1)) [] (c_nine, db_empty)
     = (None, c_nine\<lparr>buffer := replicate 9 ev1 @ [ev2]\<rparr>, db_empty\<lparr>connects := 1\<rparr>) \<and>
   length (replicate 9 ev1 @ [ev2]) = 10"
  using events_lr2
  by (simp add: log_step_metrics_def Let_def c_nine_def flush_def db_empty_def)

text \<open>
  C3, as the code has it. A call that returns with the buffer (old events and the ones
  the call appended) at the threshold or above has run \<open>flush\<close> once before
  returning: one connection has been opened, the buffer is empty when the write
  succeeded and holds every event when it failed. A call that returns with the buffer
  below the threshold only appends, and leaves the database alone; so a buffer one
  event short of a threshold above 1 is not empty.
\<close>

theorem threshold_flush:
  assumes ret: "fst (log_step_metrics hash oc ts step l lr kw (c, db)) = None"
    and pos: "0 < buffer_size c"
  shows "(buffer_size c \<le> length (buffer c @ snd (step_events hash (job_id c) step ts l lr kw)) \<longrightarrow>
        snd (log_step_metrics hash oc ts step l lr kw (c, db))
          = flush oc (c\<lparr>buffer := buffer c @ snd (step_events hash (job_id c) step ts l lr kw)\<rparr>, db) \<and>
        connects (snd (snd (log_step_metrics hash oc ts step l lr kw (c, db)))) = Suc (connects db) \<and>
        (oc = Success \<longrightarrow> buffer (fst (snd (log_step_metrics hash oc ts step l lr kw (c, db)))) = []) \<and>
        (oc \<noteq> Success \<longrightarrow> buffer (fst (snd (log_step_metrics hash oc ts step l lr kw (c, db))))
           = buffer c @ snd (step_events hash (job_id c) step ts l lr kw))) \<and>
     (length (buffer c @ snd (step_events hash (job_id c) step ts l lr kw)) < buffer_size c \<longrightarrow>
        snd (log_step_metrics hash oc ts step l lr kw (c, db))
          = (c\<lparr>buffer := buffer c @ snd (step_events hash (job_id c) step ts l lr kw)\<rparr>, db)) \<and>
     (Suc (length (buffer c @ snd (step_events hash (job_id c) step ts l lr kw))) = buffer_size c \<and>
      1 < buffer_size c \<longrightarrow>
        buffer (fst (snd (log_step_metrics hash oc ts step l lr kw (c, db)))) \<noteq> [])"
proof -
  obtain r evs where e: "step_events hash (job_id c) step ts l lr kw = (r, evs)"
    by (cases "step_events hash (job_id c) step ts l lr kw")
  have r: "r = None"
    using ret by (cases r) (simp_all add: log_step_metrics_def Let_def e)
  show ?thesis
    using pos by (cases oc) (auto simp: log_step_metrics_def Let_def e r flush_def)
qed

theorem threshold_flush_witness:
  "buffer (fst (snd (log_step_metrics hash0 Success ''t1'' 2 [] (PFloat (Finite 1)) []
       (c_nine, db_empty)))) = [] \<and>
   connects (snd (snd (log_step_metrics hash0 Success ''t1'' 2 [] (PFloat (Finite 1)) []
       (c_nine, db_empty)))) = 1 \<and>
   snd (log_step_metrics hash0 Success ''t1'' 2 [] (PFloat (Finite 1)) [] (c_empty, db_empty))
     = (c_empty\<lparr>buffer := [ev2]\<rparr>, db_empty)"
proof -
  have a: "fst (log_step_metrics hash0 Success ''t1'' 2 [] (PFloat (Finite 1)) [] (c_nine, db_empty))
      = None"
    using events_lr2 by (simp add: log_step_metrics_def Let_def c_nine_def)
  have b: "fst (log_step_metrics hash0 Success ''t1'' 2 [] (PFloat (Finite 1)) [] (c_empty, db_empty))
      = None"
    using events_lr2 by (simp add: log_step_metrics_def Let_def c_empty_def)
  have p: "0 < buffer_size c_nine" "0 < buffer_size c_empty"
    by (simp_all add: c_nine_def c_empty_def)
  have j: "job_id c_nine = ''job''" "job_id c_empty = ''job''"
    by (simp_all add: c_nine_def c_empty_def)
  show ?thesis
    using threshold_flush [OF a p(1)] threshold_flush [OF b p(2)]
    unfolding j events_lr2
    by (simp add: c_nine_def c_empty_def db_empty_def flush_def Let_def)
qed

section \<open>Where the events of a call come from\<close>

text \<open>
  An event of a call comes from an entry that passed the guard of its branch: a loss, a
  learning rate or a system event from a value that is an int or a float other than NaN
  and that \<open>float\<close> converts, an info event from a string shorter than 100. The only
  exception a call can raise is the OverflowError of \<open>float\<close> on an int.
\<close>

lemma is_number_cases:
  "is_number PNone = False" "is_number (PStr s) = False" "is_number POther = False"
  "is_number (PInt i) = True" "is_number (PBool b) = True" "is_number (PFloat f) = (f \<noteq> NaN)"
  by (simp_all add: is_number_def) (cases f; simp)

















lemma log_step_raises:
  "fst (log_step_metrics h oc ts step l lr kw (c, db)) = fst (step_events h (job_id c) step ts l lr kw)"
proof -
  obtain r evs where e: "step_events h (job_id c) step ts l lr kw = (r, evs)"
    by (cases "step_events h (job_id c) step ts l lr kw")
  show ?thesis by (cases r) (simp_all add: log_step_metrics_def Let_def e)
qed





section \<open>Extra metrics\<close>




section \<open>Values that are not numbers\<close>


text \<open>
  An int too large for a double makes \<open>float\<close> raise OverflowError, which the loops of
  the losses and of the learning rate do not catch and the handler of the extra metrics
  (ValueError, TypeError) lets through: the call raises.
\<close>

lemma float_huge: "py_float (PInt (10 ^ 400)) = Inl OverflowError"
  by code_simp

lemma huge_int_raises:
  "fst (log_step_metrics hash0 Success ''t0'' 1 [(''total'', PInt (10 ^ 400))] PNone []
     (c_empty, db_empty)) = Some OverflowError \<and>
   fst (log_step_metrics hash0 Success ''t0'' 1 [] PNone [(''gpu'', PInt (10 ^ 400))]
     (c_empty, db_empty)) = Some OverflowError"
  using float_huge
  by (simp add: log_step_raises step_events_def lr_events_def is_number_cases)




end
